theory Spec2Isabelle
  imports Main
begin

section \<open>Go values shared by the parser, the scheduler and the client\<close>

text \<open>
  A Go \<open>error\<close> value. \<open>errors.New(msg)\<close> and \<open>fmt.Errorf\<close> without \<open>%w\<close> both build
  an error that carries just its message; \<open>fmt.Errorf("prefix: %w", err)\<close> wraps \<open>err\<close>;
  \<open>StatusError\<close> is the struct of the client package; its declaration is not among the
  sources, its fields \<open>StatusCode\<close>, \<open>Status\<close> and \<open>ErrorMessage\<close> are those of the
  struct literal in \<open>stream\<close>.
\<close>

datatype error =
    ErrorString string
  | Wrapped string error
  | StatusError int string string

text \<open>
  A call of \<open>ParsePageRange\<close> ends in one of three ways: it returns the page numbers
  with a \<open>nil\<close> error (\<open>Inr\<close>), it returns \<open>nil\<close> with an error (\<open>Inl (Err e)\<close>), or the
  Go runtime panics on an index out of range (\<open>Inl (PanicIndex i n)\<close>: index \<open>i\<close>, slice
  length \<open>n\<close>). A call that never returns is \<open>None\<close> one level above.
\<close>

datatype abort = Err error | PanicIndex nat nat

text \<open>Go's \<open>int\<close> on a 64-bit platform: \<open>i++\<close> wraps from the largest value to the smallest.\<close>

definition MaxInt :: int where
  "MaxInt = 2 ^ 63 - 1"

definition MinInt :: int where
  "MinInt = - (2 ^ 63)"

definition incr :: "int \<Rightarrow> int" where
  "incr i = (if i = MaxInt then MinInt else i + 1)"

section \<open>The standard-library functions the parser calls\<close>

text \<open>
  \<open>strconv.Atoi\<close>: an optional sign, then at least one decimal digit and nothing else;
  the value has to fit an \<open>int\<close>. \<open>None\<close> stands for a non-nil error (syntax or range);
  the parser only tests the error against \<open>nil\<close>.
\<close>

definition is_digit :: "char \<Rightarrow> bool" where
  "is_digit c = (48 \<le> (of_char c :: nat) \<and> (of_char c :: nat) \<le> 57)"

definition digit_val :: "char \<Rightarrow> int" where
  "digit_val c = int (of_char c) - 48"

definition Atoi :: "string \<Rightarrow> int option" where
  "Atoi s =
     (case s of
        [] \<Rightarrow> None
      | c # cs \<Rightarrow>
          (let ds = (if c = CHR ''-'' \<or> c = CHR ''+'' then cs else s)
           in if ds = [] \<or> \<not> list_all is_digit ds then None
              else (let n = foldl (\<lambda>n ch. n * 10 + digit_val ch) 0 ds;
                        v = (if c = CHR ''-'' then - n else n)
                    in if MinInt \<le> v \<and> v \<le> MaxInt then Some v else None)))"

text \<open>\<open>strings.Contains(s, sep)\<close> and \<open>strings.Split(s, sep)\<close> for a separator of one byte.\<close>

definition Contains :: "string \<Rightarrow> char \<Rightarrow> bool" where
  "Contains s sep = (sep \<in> set s)"

fun Split :: "string \<Rightarrow> char \<Rightarrow> string list" where
  "Split [] sep = [[]]"
| "Split (c # cs) sep =
     (if c = sep then [] # Split cs sep
      else (case Split cs sep of
              [] \<Rightarrow> [[c]]
            | p # ps \<Rightarrow> (c # p) # ps))"

section \<open>ParsePageRange\<close>

text \<open>
  The loop \<open>for i := start; i <= end; i++ { pageNumbers = append(pageNumbers, i) }\<close>.
  With \<open>end\<close> the largest \<open>int\<close> the condition never fails, so the loop is a partial
  function: \<open>None\<close> is a run that does not return. Slices are lists without a bound on
  their length: the memory of the machine is not part of the model.
\<close>

partial_function (option) range_loop :: "int \<Rightarrow> int \<Rightarrow> int list \<Rightarrow> int list option" where
  "range_loop i end pageNumbers =
     (if i \<le> end then range_loop (incr i) end (pageNumbers @ [i]) else Some pageNumbers)"

declare range_loop.simps [code]

text \<open>
  The loop of the comma branch, \<open>for i, r := range ranges { pageNumbers[i], err = strconv.Atoi(r); ... }\<close>.
  The assignment to \<open>pageNumbers[i]\<close> panics when \<open>i\<close> is not below the length of the slice.
\<close>

fun comma_loop :: "nat \<Rightarrow> string list \<Rightarrow> int list \<Rightarrow> abort + int list" where
  "comma_loop i [] pageNumbers = Inr pageNumbers"
| "comma_loop i (r # ranges) pageNumbers =
     (if length pageNumbers \<le> i then Inl (PanicIndex i (length pageNumbers))
      else (case Atoi r of
              None \<Rightarrow> Inl (Err (ErrorString (''invalid page number: '' @ r)))
            | Some v \<Rightarrow> comma_loop (i + 1) ranges (pageNumbers[i := v])))"

definition dash_branch :: "string \<Rightarrow> (abort + int list) option" where
  "dash_branch pageRange =
     (let parts = Split pageRange CHR ''-''
      in if length parts \<noteq> 2
         then Some (Inl (Err (ErrorString (''invalid page range format: '' @ pageRange))))
         else (case Atoi (parts ! 0) of
                 None \<Rightarrow> Some (Inl (Err (ErrorString (''invalid start page: '' @ parts ! 0))))
               | Some start \<Rightarrow>
                   (case Atoi (parts ! 1) of
                      None \<Rightarrow> Some (Inl (Err (ErrorString (''invalid end page: '' @ parts ! 1))))
                    | Some end \<Rightarrow> map_option Inr (range_loop start end []))))"

definition comma_branch :: "string \<Rightarrow> abort + int list" where
  "comma_branch pageRange =
     (let ranges = Split pageRange CHR '',''
      in comma_loop 0 ranges [])"

definition ParsePageRange :: "string \<Rightarrow> (abort + int list) option" where
  "ParsePageRange pageRange =
     (if pageRange = [] then Some (Inr [])
      else (case (if Contains pageRange CHR ''-'' then dash_branch pageRange else Some (Inr [])) of
              None \<Rightarrow> None
            | Some (Inl a) \<Rightarrow> Some (Inl a)
            | Some (Inr pageNumbers) \<Rightarrow>
                if Contains pageRange CHR '','' then Some (comma_branch pageRange)
                else Some (Inr pageNumbers)))"

section \<open>The uniai command: which pages are processed\<close>

text \<open>
  Lines 44 to 50 of the command: the \<open>--pages\<close> flag is parsed only when it is not empty;
  an error is printed and ends the run.
\<close>

definition requested_pages :: "string \<Rightarrow> (abort + int list) option" where
  "requested_pages pageRange =
     (if pageRange \<noteq> [] then ParsePageRange pageRange else Some (Inr []))"

text \<open>
  Lines 71 to 76: with no page numbers, every page from 1 to \<open>numPages\<close> is appended, by
  the same counting loop as in the parser.
\<close>

definition pages_to_process :: "int list \<Rightarrow> int \<Rightarrow> int list option" where
  "pages_to_process pageNumbers numPages =
     (if length pageNumbers = 0 then range_loop 1 numPages pageNumbers
      else Some pageNumbers)"

section \<open>RenderPdfPage\<close>

text \<open>\<open>fmt.Sprintf("%d", n)\<close>: the decimal digits of \<open>n\<close>, after a minus sign when \<open>n < 0\<close>.\<close>

fun digits_of :: "nat \<Rightarrow> string" where
  "digits_of n =
     (if n < 10 then [''0123456789'' ! n]
      else digits_of (n div 10) @ [''0123456789'' ! (n mod 10)])"

declare digits_of.simps [simp del]

definition Sprintf_d :: "int \<Rightarrow> string" where
  "Sprintf_d n = (if n < 0 then CHR ''-'' # digits_of (nat (- n)) else digits_of (nat n))"

text \<open>
  What lies outside the repository is a parameter: the PDF reader (\<open>GetPage\<close>, which
  returns a page pointer that may be \<open>nil\<close>, or an error), the render device, \<open>os.Create\<close>
  and \<open>jpeg.Encode\<close> (\<open>None\<close> is a \<open>nil\<close> error). The goroutines of the parallel mode open
  a reader of their own on the same bytes; it is taken to answer as the first reader does.
\<close>

record ('page, 'img) pdf_env =
  GetPage :: "int \<Rightarrow> error + 'page option"
  Render :: "'page \<Rightarrow> error + 'img"
  Create :: "string \<Rightarrow> error option"
  Encode :: "'img \<Rightarrow> error option"

text \<open>
  A file is either \<open>Truncated\<close> (created or emptied by \<open>os.Create\<close>, no complete image in
  it) or holds the encoded image. The file system maps a path to the file there.
\<close>

datatype 'img file_content = Truncated | Encoded 'img

type_synonym 'img files = "string \<rightharpoonup> 'img file_content"

definition RenderPdfPage ::
  "('page, 'img) pdf_env \<Rightarrow> int \<Rightarrow> 'page option \<Rightarrow> string \<Rightarrow> 'img files
     \<Rightarrow> (error + string) \<times> 'img files" where
  "RenderPdfPage env pageNumber page outputDir fs =
     (case page of
        None \<Rightarrow> (Inl (ErrorString ''page is nil''), fs)
      | Some pg \<Rightarrow>
          (case Render env pg of
             Inl err \<Rightarrow> (Inl err, fs)
           | Inr img \<Rightarrow>
               (let outputFilePath = outputDir @ ''/page_'' @ Sprintf_d pageNumber @ ''.jpg''
                in case Create env outputFilePath of
                     Some err \<Rightarrow> (Inl (Wrapped ''failed to create output file: '' err), fs)
                   | None \<Rightarrow>
                       (case Encode env img of
                          Some err \<Rightarrow>
                            (Inl (Wrapped ''failed to encode image: '' err),
                             fs(outputFilePath \<mapsto> Truncated))
                        | None \<Rightarrow> (Inr outputFilePath, fs(outputFilePath \<mapsto> Encoded img))))))"

section \<open>The rendering loop of the uniai command\<close>

record renderedPage =
  pageNum :: int
  filePath :: string

text \<open>The zero value of the struct, which \<open>make([]renderedPage, numPages)\<close> fills the slice with.\<close>

definition zero_renderedPage :: renderedPage where
  "zero_renderedPage = \<lparr>pageNum = 0, filePath = []\<rparr>"

text \<open>The lines the loop prints with \<open>println\<close>, one constructor for each call.\<close>

datatype message =
    PageOutOfRange int
  | FailedToGetPage error
  | FailedToRenderPage error
  | RenderedPage int string

record 'img render_state =
  renderedPages :: "renderedPage list"
  files :: "'img files"
  printed :: "message list"

text \<open>
  One iteration of \<open>for _, pageNum := range pageNumbers\<close> (lines 101 to 152). The loop
  variable is written \<open>pageNumber\<close> here, \<open>pageNum\<close> being the field of the record.
  \<open>outputDir\<close> is the \<open>--output\<close> flag and \<open>outDir\<close> is
  \<open>filepath.Join(outputDir, dirName)\<close>, the directory named after the PDF file
  (lines 89 to 92).

  In parallel mode the body runs in a goroutine, admitted by a channel of capacity 3. The
  model runs each body to completion at its dispatch: every body writes only the slot
  \<open>pageNum - 1\<close> and the file of its page, and what it writes depends on the page alone.
\<close>

definition render_one ::
  "('page, 'img) pdf_env \<Rightarrow> bool \<Rightarrow> string \<Rightarrow> string \<Rightarrow> int \<Rightarrow> int
     \<Rightarrow> 'img render_state \<Rightarrow> 'img render_state" where
  "render_one env isParallel outputDir outDir numPages pageNumber st =
     (if pageNumber < 1 \<or> pageNumber > numPages
      then st\<lparr>printed := printed st @ [PageOutOfRange pageNumber]\<rparr>
      else if isParallel then
        (case GetPage env pageNumber of
           Inl err \<Rightarrow> st\<lparr>printed := printed st @ [FailedToGetPage err]\<rparr>
         | Inr page \<Rightarrow>
             (case RenderPdfPage env pageNumber page outDir (files st) of
                (Inl err, fs) \<Rightarrow>
                  st\<lparr>files := fs, printed := printed st @ [FailedToRenderPage err]\<rparr>
              | (Inr output, fs) \<Rightarrow>
                  st\<lparr>renderedPages := (renderedPages st)
                        [nat (pageNumber - 1) := \<lparr>pageNum = pageNumber, filePath = output\<rparr>],
                     files := fs,
                     printed := printed st @ [RenderedPage pageNumber output]\<rparr>))
      else
        (case GetPage env pageNumber of
           Inl err \<Rightarrow> st\<lparr>printed := printed st @ [FailedToGetPage err]\<rparr>
         | Inr page \<Rightarrow>
             (case RenderPdfPage env pageNumber page outputDir (files st) of
                (Inl err, fs) \<Rightarrow>
                  st\<lparr>files := fs, printed := printed st @ [FailedToRenderPage err]\<rparr>
              | (Inr output, fs) \<Rightarrow>
                  st\<lparr>renderedPages := (renderedPages st)
                        [nat (pageNumber - 1) := \<lparr>pageNum = pageNumber, filePath = output\<rparr>],
                     files := fs,
                     printed := printed st @ [RenderedPage pageNumber output]\<rparr>)))"

text \<open>
  The loop over the requested pages, from the slice that
  \<open>make([]renderedPage, numPages)\<close> allocates. \<open>numPages\<close> is what \<open>GetNumPages\<close> returned
  with a \<open>nil\<close> error, the number of pages of the document; \<open>make\<close> would panic on a
  negative length, and the theorems below take \<open>0 \<le> numPages\<close> where the length of the
  slice matters. With that length every store \<open>renderedPages[pageNum-1]\<close> that the guard of
  the loop lets through is in range.
\<close>

definition render_pages ::
  "('page, 'img) pdf_env \<Rightarrow> bool \<Rightarrow> string \<Rightarrow> string \<Rightarrow> int \<Rightarrow> int list
     \<Rightarrow> 'img files \<Rightarrow> 'img render_state" where
  "render_pages env isParallel outputDir outDir numPages pageNumbers fs =
     foldl (\<lambda>st p. render_one env isParallel outputDir outDir numPages p st)
       \<lparr>renderedPages = replicate (nat numPages) zero_renderedPage, files = fs, printed = []\<rparr>
       pageNumbers"

text \<open>
  Page \<open>pageNumber\<close> is rendered successfully into \<open>dir\<close>: \<open>GetPage\<close> and then
  \<open>RenderPdfPage\<close> return without an error.
\<close>

definition renders :: "('page, 'img) pdf_env \<Rightarrow> string \<Rightarrow> int \<Rightarrow> bool" where
  "renders env dir pageNumber =
     (case GetPage env pageNumber of
        Inl err \<Rightarrow> False
      | Inr page \<Rightarrow>
          (case fst (RenderPdfPage env pageNumber page dir Map.empty) of
             Inl err \<Rightarrow> False
           | Inr output \<Rightarrow> True))"

section \<open>The streaming client\<close>

text \<open>
  The response of \<open>c.client.Do\<close>: the status code, the status line, and the lines that
  the \<open>bufio.Scanner\<close> on the body yields one by one until \<open>Scan\<close> returns false.
\<close>

record response =
  StatusCode :: int
  Status :: string
  Body :: "string list"

text \<open>\<open>http.StatusBadRequest\<close>\<close>

definition StatusBadRequest :: int where
  "StatusBadRequest = 400"

text \<open>
  The loop \<open>for scanner.Scan() { ... }\<close> of \<open>stream\<close>. \<open>unmarshal\<close> stands for
  \<open>json.Unmarshal\<close> into the probe struct with the single field \<open>Error\<close>: it fails
  with an error or yields the value of that field (empty when the line has none). The
  handler \<open>fn\<close> is a Go closure: it returns an error or \<open>nil\<close> and may change the state
  \<open>'s\<close> it closes over, which the loop hands from one call to the next.
\<close>

fun scan_loop ::
  "(string \<Rightarrow> error + string) \<Rightarrow> response \<Rightarrow> (string \<Rightarrow> 's \<Rightarrow> error option \<times> 's)
     \<Rightarrow> string list \<Rightarrow> 's \<Rightarrow> error option \<times> 's" where
  "scan_loop unmarshal resp fn [] s = (None, s)"
| "scan_loop unmarshal resp fn (bts # rest) s =
     (case unmarshal bts of
        Inl err \<Rightarrow> (Some (Wrapped ''unmarshal: '' err), s)
      | Inr errorResponse \<Rightarrow>
          if errorResponse \<noteq> [] then (Some (ErrorString errorResponse), s)
          else if StatusCode resp \<ge> StatusBadRequest
          then (Some (StatusError (StatusCode resp) (Status resp) errorResponse), s)
          else (case fn bts s of
                  (Some err, s') \<Rightarrow> (Some err, s')
                | (None, s') \<Rightarrow> scan_loop unmarshal resp fn rest s'))"

text \<open>
  \<open>stream\<close>: \<open>sent\<close> is the outcome of encoding the request, building it and sending it
  (\<open>json.Marshal\<close>, \<open>http.NewRequestWithContext\<close>, \<open>c.client.Do\<close>), each of which returns
  its error at once; otherwise the body of the response is scanned.
\<close>

definition stream ::
  "(string \<Rightarrow> error + string) \<Rightarrow> error + response \<Rightarrow> (string \<Rightarrow> 's \<Rightarrow> error option \<times> 's)
     \<Rightarrow> 's \<Rightarrow> error option \<times> 's" where
  "stream unmarshal sent fn s =
     (case sent of
        Inl err \<Rightarrow> (Some err, s)
      | Inr resp \<Rightarrow> scan_loop unmarshal resp fn (Body resp) s)"

text \<open>
  \<open>Generate\<close> and \<open>Chat\<close> pass \<open>stream\<close> a closure that decodes the line into a
  \<open>GenerateResponse\<close> (a \<open>ChatResponse\<close>) and calls the caller's handler on it. The two
  closures have the same text; \<open>decode\<close> stands for their \<open>json.Unmarshal\<close>.
\<close>

definition decode_then_call ::
  "(string \<Rightarrow> error + 'resp) \<Rightarrow> ('resp \<Rightarrow> 's \<Rightarrow> error option \<times> 's)
     \<Rightarrow> string \<Rightarrow> 's \<Rightarrow> error option \<times> 's" where
  "decode_then_call decode fn bts s =
     (case decode bts of
        Inl err \<Rightarrow> (Some err, s)
      | Inr resp \<Rightarrow> fn resp s)"

definition Generate ::
  "(string \<Rightarrow> error + string) \<Rightarrow> (string \<Rightarrow> error + 'resp) \<Rightarrow> error + response
     \<Rightarrow> ('resp \<Rightarrow> 's \<Rightarrow> error option \<times> 's) \<Rightarrow> 's \<Rightarrow> error option \<times> 's" where
  "Generate unmarshal decode sent fn s =
     stream unmarshal sent (decode_then_call decode fn) s"

definition Chat ::
  "(string \<Rightarrow> error + string) \<Rightarrow> (string \<Rightarrow> error + 'resp) \<Rightarrow> error + response
     \<Rightarrow> ('resp \<Rightarrow> 's \<Rightarrow> error option \<times> 's) \<Rightarrow> 's \<Rightarrow> error option \<times> 's" where
  "Chat unmarshal decode sent fn s =
     stream unmarshal sent (decode_then_call decode fn) s"

section \<open>The scanner on the body of the response\<close>

text \<open>
  \<open>const maxBufferSize = 512 * KiloByte\<close>, with \<open>KiloByte = Byte * 1000\<close> and \<open>Byte = 1\<close>.
\<close>

definition KiloByte :: nat where
  "KiloByte = 1 * 1000"

definition maxBufferSize :: nat where
  "maxBufferSize = 512 * KiloByte"

text \<open>
  \<open>stream\<close> reads the body with a \<open>bufio.Scanner\<close> (split function \<open>ScanLines\<close>) whose
  buffer has \<open>maxBufferSize\<close> bytes and may not grow: \<open>scanner.Buffer(scanBuf, maxBufferSize)\<close>.
  A token is a line without its newline and without a carriage return at its end (\<open>dropCR\<close>).
\<close>

definition dropCR :: "string \<Rightarrow> string" where
  "dropCR data = (if data \<noteq> [] \<and> last data = CHR 0x0D then butlast data else data)"

text \<open>
  The tokens that \<open>Scan\<close> yields, from the pieces of the body between its newlines. A line
  that ends in a newline is found when the line and the newline fit the buffer together;
  when the buffer is full without a newline in it, \<open>Scan\<close> returns false (the scanner's error
  is \<open>ErrTooLong\<close>, which \<open>stream\<close> never reads) and no later line is scanned. The last
  piece has no newline after it: when empty it is no token; otherwise it is the last token
  if it is shorter than the buffer, or fills it exactly and the reader has reported the end
  of the body together with the last bytes (\<open>eofWithData\<close>).
\<close>

fun scan_tokens :: "nat \<Rightarrow> bool \<Rightarrow> string list \<Rightarrow> string list" where
  "scan_tokens bufSize eofWithData [] = []"
| "scan_tokens bufSize eofWithData [final] =
     (if final = [] then []
      else if length final < bufSize \<or> (length final = bufSize \<and> eofWithData) then [dropCR final]
      else [])"
| "scan_tokens bufSize eofWithData (line # rest) =
     (if length line < bufSize then dropCR line # scan_tokens bufSize eofWithData rest
      else [])"

definition scanned :: "bool \<Rightarrow> string \<Rightarrow> string list" where
  "scanned eofWithData body = scan_tokens maxBufferSize eofWithData (Split body CHR 0x0A)"

text \<open>
  The lines of a body: its pieces between newlines, where an empty piece after the last
  newline is not a line.
\<close>

definition body_lines :: "string \<Rightarrow> string list" where
  "body_lines body =
     (let pieces = Split body CHR 0x0A
      in if last pieces = [] then butlast pieces else pieces)"

section \<open>Facts about the library functions and the loops of the parser\<close>

lemma Split_not_Nil: "Split s sep \<noteq> []"
  by (induction s) (auto split: list.splits)

lemma Split_no_sep: "sep \<notin> set s \<Longrightarrow> Split s sep = [s]"
  by (induction s) auto

lemma Split_one_sep:
  "sep \<notin> set a \<Longrightarrow> sep \<notin> set b \<Longrightarrow> Split (a @ sep # b) sep = [a, b]"
  by (induction a) (auto simp: Split_no_sep)

lemma Split_single: "Split s sep = [b] \<Longrightarrow> s = b \<and> sep \<notin> set b"
proof (induction s arbitrary: b)
  case Nil
  then show ?case by simp
next
  case (Cons c cs)
  show ?case
  proof (cases "c = sep")
    case True
    with Cons.prems show ?thesis by (simp add: Split_not_Nil)
  next
    case False
    with Cons.prems obtain p where p: "Split cs sep = [p]" "b = c # p"
      by (auto split: list.splits simp: Split_not_Nil)
    from Cons.IH [OF p(1)] p(2) False show ?thesis by simp
  qed
qed

lemma Split_two_parts:
  "Split s sep = [a, b] \<Longrightarrow> s = a @ sep # b \<and> sep \<notin> set a \<and> sep \<notin> set b"
proof (induction s arbitrary: a)
  case Nil
  then show ?case by simp
next
  case (Cons c cs)
  show ?case
  proof (cases "c = sep")
    case True
    with Cons.prems have ab: "a = []" "Split cs sep = [b]" by auto
    from Split_single [OF ab(2)] ab(1) True show ?thesis by simp
  next
    case False
    with Cons.prems obtain p where p: "Split cs sep = [p, b]" "a = c # p"
      by (auto split: list.splits simp: Split_not_Nil)
    from Cons.IH [OF p(1)] p(2) False show ?thesis by simp
  qed
qed

lemma range_loop_upto: "e < MaxInt \<Longrightarrow> range_loop i e acc = Some (acc @ [i..e])"
proof (induction "nat (e - i + 1)" arbitrary: i acc)
  case 0
  then have "\<not> i \<le> e" by simp
  then show ?case by (subst range_loop.simps) simp
next
  case (Suc n)
  then have le: "i \<le> e" by simp
  with Suc.prems have inc: "incr i = i + 1" by (simp add: incr_def)
  have n: "n = nat (e - (i + 1) + 1)" using Suc.hyps(2) by simp
  have "range_loop i e acc = range_loop (i + 1) e (acc @ [i])"
    using le inc by (subst range_loop.simps) simp
  also have "\<dots> = Some ((acc @ [i]) @ [i + 1..e])"
    using Suc.hyps(1) [OF n Suc.prems] .
  also have "(acc @ [i]) @ [i + 1..e] = acc @ [i..e]"
    using le by (simp add: upto_rec1)
  finally show ?case .
qed

lemma range_loop_Some_not_MaxInt:
  assumes ret: "range_loop i e acc = Some y"
  shows "i \<le> MaxInt \<longrightarrow> e \<noteq> MaxInt"
proof (rule range_loop.raw_induct [where P = "\<lambda>i e acc y. i \<le> MaxInt \<longrightarrow> e \<noteq> MaxInt", OF _ ret])
  fix f :: "int \<Rightarrow> int \<Rightarrow> int list \<Rightarrow> int list option" and i e :: int and acc y :: "int list"
  assume IH: "\<And>i e acc y. f i e acc = Some y \<Longrightarrow> i \<le> MaxInt \<longrightarrow> e \<noteq> MaxInt"
    and eq: "(if i \<le> e then f (incr i) e (acc @ [i]) else Some acc) = Some y"
  show "i \<le> MaxInt \<longrightarrow> e \<noteq> MaxInt"
  proof
    assume iM: "i \<le> MaxInt"
    show "e \<noteq> MaxInt"
    proof (cases "i \<le> e")
      case True
      with eq have "f (incr i) e (acc @ [i]) = Some y" by simp
      then have "incr i \<le> MaxInt \<longrightarrow> e \<noteq> MaxInt" by (rule IH)
      moreover have "incr i \<le> MaxInt"
        using iM by (simp add: incr_def MaxInt_def MinInt_def)
      ultimately show ?thesis by blast
    next
      case False
      with iM show ?thesis by auto
    qed
  qed
qed

lemma range_loop_diverges: "i \<le> MaxInt \<Longrightarrow> range_loop i MaxInt acc = None"
  using range_loop_Some_not_MaxInt [of i MaxInt acc] by (cases "range_loop i MaxInt acc") auto

lemma is_digit_comma: "\<not> is_digit CHR '',''"
  by (simp add: is_digit_def)

lemma Atoi_Some_chars:
  "Atoi s = Some v \<Longrightarrow> c \<in> set s \<Longrightarrow> is_digit c \<or> c = CHR ''-'' \<or> c = CHR ''+''"
  by (cases s) (auto simp: Atoi_def Let_def list_all_iff split: if_splits)

lemma Atoi_Some_no_comma: "Atoi s = Some v \<Longrightarrow> CHR '','' \<notin> set s"
  using Atoi_Some_chars [of s v "CHR '',''"] by (auto simp: is_digit_comma)

lemma dash_branch_eq:
  assumes "CHR ''-'' \<notin> set sa" "CHR ''-'' \<notin> set sb"
  shows "dash_branch (sa @ CHR ''-'' # sb) =
     (case Atoi sa of
        None \<Rightarrow> Some (Inl (Err (ErrorString (''invalid start page: '' @ sa))))
      | Some start \<Rightarrow>
          (case Atoi sb of
             None \<Rightarrow> Some (Inl (Err (ErrorString (''invalid end page: '' @ sb))))
           | Some end \<Rightarrow> map_option Inr (range_loop start end [])))"
  using assms by (simp add: dash_branch_def Split_one_sep Let_def split: option.splits)

lemma comma_loop_panics: "comma_loop 0 (Split s sep) [] = Inl (PanicIndex 0 0)"
  by (cases "Split s sep") (simp_all add: Split_not_Nil)

lemma ParsePageRange_comma_panics:
  "Contains s CHR '','' \<Longrightarrow> \<not> Contains s CHR ''-'' \<Longrightarrow>
   ParsePageRange s = Some (Inl (PanicIndex 0 0))"
  by (auto simp: ParsePageRange_def Contains_def comma_branch_def comma_loop_panics)

lemma ParsePageRange_dash:
  assumes "CHR ''-'' \<notin> set sa" "CHR ''-'' \<notin> set sb"
  shows "ParsePageRange (sa @ CHR ''-'' # sb) =
     (case Atoi sa of
        None \<Rightarrow> Some (Inl (Err (ErrorString (''invalid start page: '' @ sa))))
      | Some start \<Rightarrow>
          (case Atoi sb of
             None \<Rightarrow> Some (Inl (Err (ErrorString (''invalid end page: '' @ sb))))
           | Some end \<Rightarrow> map_option Inr (range_loop start end [])))"
proof -
  have c: "Contains (sa @ CHR ''-'' # sb) CHR ''-''" by (simp add: Contains_def)
  have nc: "Atoi sa = Some a \<Longrightarrow> Atoi sb = Some b \<Longrightarrow> \<not> Contains (sa @ CHR ''-'' # sb) CHR '',''" for a b
    using Atoi_Some_no_comma [of sa a] Atoi_Some_no_comma [of sb b] by (simp add: Contains_def)
  show ?thesis
  proof (cases "Atoi sa")
    case None
    then show ?thesis using c by (simp add: ParsePageRange_def dash_branch_eq [OF assms])
  next
    case (Some a)
    note sa = this
    show ?thesis
    proof (cases "Atoi sb")
      case None
      then show ?thesis using c sa by (simp add: ParsePageRange_def dash_branch_eq [OF assms])
    next
      case (Some b)
      with sa nc [OF sa Some] c show ?thesis
        by (cases "range_loop a b []") (simp_all add: ParsePageRange_def dash_branch_eq [OF assms])
    qed
  qed
qed

lemma ParsePageRange_parts:
  "Contains s CHR ''-'' \<Longrightarrow> length (Split s CHR ''-'') \<noteq> 2 \<Longrightarrow>
   ParsePageRange s = Some (Inl (Err (ErrorString (''invalid page range format: '' @ s))))"
  by (auto simp: ParsePageRange_def dash_branch_def Contains_def Let_def)

lemma ParsePageRange_plain:
  "s \<noteq> [] \<Longrightarrow> \<not> Contains s CHR ''-'' \<Longrightarrow> \<not> Contains s CHR '','' \<Longrightarrow>
   ParsePageRange s = Some (Inr [])"
  by (simp add: ParsePageRange_def)

lemma two_parts_cases:
  assumes "Contains s CHR ''-''"
  obtains (parts) "length (Split s CHR ''-'') \<noteq> 2"
  | (two) sa sb where "s = sa @ CHR ''-'' # sb" "CHR ''-'' \<notin> set sa" "CHR ''-'' \<notin> set sb"
proof (cases "length (Split s CHR ''-'') = 2")
  case True
  then obtain sa sb where "Split s CHR ''-'' = [sa, sb]"
    by (cases "Split s CHR ''-''" rule: list.exhaust; simp; metis length_0_conv length_Suc_conv)
  from Split_two_parts [OF this] show ?thesis using two by simp
next
  case False
  then show ?thesis using parts by simp
qed


section \<open>Claims about ParsePageRange\<close>

text \<open>
  C1. The claim: for a comma expression such as \<open>"a,b,c"\<close> of decimal integers,
  ParsePageRange returns \<open>[a,b,c]\<close> in order, without an error and without a panic.
  The code allocates the slice with length 0 (\<open>make([]int, 0, len(ranges))\<close>) and then stores
  into \<open>pageNumbers[i]\<close>: on \<open>"1,2,3"\<close> the first store is out of range and the
  call panics.
\<close>

theorem ParsePageRange_comma_list_panics:
  "ParsePageRange ''1,2,3'' = Some (Inl (PanicIndex 0 0))"
  by (simp add: ParsePageRange_def Contains_def comma_branch_def)

text \<open>
  C2, as stated: every malformed input, in particular \<open>"abc"\<close>, yields a parse error
  and never an empty result without an error. On \<open>"abc"\<close> neither branch is taken and the
  call returns no page and no error.
\<close>

theorem ParsePageRange_abc_no_error:
  "ParsePageRange ''abc'' = Some (Inr [])"
  by (simp add: ParsePageRange_def Contains_def)

text \<open>
  C2, amended. An input with a dash that is not of the form \<open>sa-sb\<close>, with \<open>sa\<close> and
  \<open>sb\<close> free of dashes and both accepted by \<open>strconv.Atoi\<close>, makes ParsePageRange return
  an error (it returns, and it does not panic); \<open>"1-"\<close> and \<open>"1-2-3"\<close> are such inputs.
  A non-empty input with neither a dash nor a comma, such as \<open>"abc"\<close>, is not rejected: the
  result is empty and there is no error.
\<close>

theorem ParsePageRange_malformed:
  "(Contains s CHR ''-'' \<and>
      \<not> (\<exists>sa sb. s = sa @ ''-'' @ sb \<and> CHR ''-'' \<notin> set sa \<and> CHR ''-'' \<notin> set sb \<and>
            Atoi sa \<noteq> None \<and> Atoi sb \<noteq> None) \<longrightarrow>
      (\<exists>msg. ParsePageRange s = Some (Inl (Err (ErrorString msg))))) \<and>
   (s \<noteq> [] \<and> \<not> Contains s CHR ''-'' \<and> \<not> Contains s CHR '','' \<longrightarrow>
      ParsePageRange s = Some (Inr []))"
proof (intro conjI impI)
  assume a: "Contains s CHR ''-'' \<and>
      \<not> (\<exists>sa sb. s = sa @ ''-'' @ sb \<and> CHR ''-'' \<notin> set sa \<and> CHR ''-'' \<notin> set sb \<and>
            Atoi sa \<noteq> None \<and> Atoi sb \<noteq> None)"
  then have c: "Contains s CHR ''-''" by simp
  from c show "\<exists>msg. ParsePageRange s = Some (Inl (Err (ErrorString msg)))"
  proof (cases rule: two_parts_cases)
    case parts
    with c show ?thesis by (simp add: ParsePageRange_parts)
  next
    case (two sa sb)
    have "s = sa @ ''-'' @ sb" using two(1) by simp
    with a two(2,3) have "Atoi sa = None \<or> Atoi sb = None" by blast
    then show ?thesis
      using two by (auto simp: ParsePageRange_dash split: option.splits)
  qed
next
  assume "s \<noteq> [] \<and> \<not> Contains s CHR ''-'' \<and> \<not> Contains s CHR '',''"
  then show "ParsePageRange s = Some (Inr [])" by (simp add: ParsePageRange_plain)
qed

theorem ParsePageRange_malformed_witness:
  "(\<exists>msg. ParsePageRange ''1-'' = Some (Inl (Err (ErrorString msg)))) \<and>
   (\<exists>msg. ParsePageRange ''1-2-3'' = Some (Inl (Err (ErrorString msg)))) \<and>
   ParsePageRange ''abc'' = Some (Inr [])"
proof -
  have no_parse: "\<not> (\<exists>sa sb. s = sa @ ''-'' @ sb \<and> CHR ''-'' \<notin> set sa \<and> CHR ''-'' \<notin> set sb \<and>
            Atoi sa \<noteq> None \<and> Atoi sb \<noteq> None)"
    if "length (Split s CHR ''-'') \<noteq> 2 \<or> Atoi (Split s CHR ''-'' ! 1) = None" for s
  proof
    assume "\<exists>sa sb. s = sa @ ''-'' @ sb \<and> CHR ''-'' \<notin> set sa \<and> CHR ''-'' \<notin> set sb \<and>
            Atoi sa \<noteq> None \<and> Atoi sb \<noteq> None"
    then obtain sa sb where d: "s = sa @ CHR ''-'' # sb" "CHR ''-'' \<notin> set sa"
      "CHR ''-'' \<notin> set sb" "Atoi sb \<noteq> None" by auto
    then have "Split s CHR ''-'' = [sa, sb]" by (simp add: Split_one_sep)
    with that d(4) show False by simp
  qed
  have 1: "\<exists>msg. ParsePageRange ''1-'' = Some (Inl (Err (ErrorString msg)))"
    using ParsePageRange_malformed [of "''1-''"] no_parse [of "''1-''"]
    by (simp add: Contains_def Atoi_def)
  have 2: "\<exists>msg. ParsePageRange ''1-2-3'' = Some (Inl (Err (ErrorString msg)))"
    using ParsePageRange_malformed [of "''1-2-3''"] no_parse [of "''1-2-3''"]
    by (simp add: Contains_def)
  have 3: "ParsePageRange ''abc'' = Some (Inr [])"
    using ParsePageRange_malformed [of "''abc''"] by (simp add: Contains_def)
  from 1 2 3 show ?thesis by blast
qed

text \<open>
  C7, as stated: for every dash expression \<open>"a-b"\<close> of valid decimal integers with
  \<open>a \<le> b\<close> the result is \<open>[a, ..., b]\<close>. \<open>strconv.Atoi\<close> accepts the largest \<open>int\<close>,
  9223372036854775807; with it as the end page the condition \<open>i <= end\<close> holds for every
  \<open>int\<close>, \<open>i++\<close> wraps around, and the loop never ends: the call does not return.
\<close>

theorem ParsePageRange_dash_MaxInt_diverges:
  "ParsePageRange ''9223372036854775807-9223372036854775807'' = None"
  using ParsePageRange_dash [of "''9223372036854775807''" "''9223372036854775807''"]
    range_loop_diverges [of MaxInt "[]"]
  by (simp add: Atoi_def is_digit_def digit_val_def MaxInt_def MinInt_def)

text \<open>
  C7, amended. Let \<open>sa\<close> and \<open>sb\<close> contain no dash. If \<open>strconv.Atoi\<close> reads them as \<open>a\<close>
  and \<open>b\<close> with \<open>a \<le> b\<close> and \<open>b\<close> below the largest \<open>int\<close>, ParsePageRange returns
  exactly \<open>[a, a+1, ..., b]\<close> and no error on \<open>sa-sb\<close>. If \<open>sa\<close> is not an integer the error
  is \<open>invalid start page: sa\<close>; if \<open>sa\<close> is one and \<open>sb\<close> is not, it is
  \<open>invalid end page: sb\<close>. An input with a dash that does not split into exactly two parts
  yields the error \<open>invalid page range format:\<close> followed by the whole input.
\<close>

theorem ParsePageRange_dash_range:
  "CHR ''-'' \<notin> set sa \<Longrightarrow> CHR ''-'' \<notin> set sb \<Longrightarrow>
     (\<forall>a b. Atoi sa = Some a \<and> Atoi sb = Some b \<and> a \<le> b \<and> b < MaxInt \<longrightarrow>
        ParsePageRange (sa @ ''-'' @ sb) = Some (Inr [a..b])) \<and>
     (Atoi sa = None \<longrightarrow>
        ParsePageRange (sa @ ''-'' @ sb) =
          Some (Inl (Err (ErrorString (''invalid start page: '' @ sa))))) \<and>
     (Atoi sa \<noteq> None \<and> Atoi sb = None \<longrightarrow>
        ParsePageRange (sa @ ''-'' @ sb) =
          Some (Inl (Err (ErrorString (''invalid end page: '' @ sb))))) \<and>
     (\<forall>s. Contains s CHR ''-'' \<and> length (Split s CHR ''-'') \<noteq> 2 \<longrightarrow>
        ParsePageRange s =
          Some (Inl (Err (ErrorString (''invalid page range format: '' @ s)))))"
  by (auto simp: ParsePageRange_dash ParsePageRange_parts range_loop_upto)

theorem ParsePageRange_dash_range_witness:
  "ParsePageRange ''2-4'' = Some (Inr [2, 3, 4]) \<and>
   ParsePageRange ''x-4'' = Some (Inl (Err (ErrorString ''invalid start page: x''))) \<and>
   ParsePageRange ''1-'' = Some (Inl (Err (ErrorString ''invalid end page: ''))) \<and>
   ParsePageRange ''1-2-3'' = Some (Inl (Err (ErrorString ''invalid page range format: 1-2-3'')))"
proof -
  have 1: "ParsePageRange ''2-4'' = Some (Inr [2, 3, 4])"
    using ParsePageRange_dash_range [of "''2''" "''4''"]
    by (simp add: Atoi_def is_digit_def digit_val_def MaxInt_def MinInt_def)
  have 2: "ParsePageRange ''x-4'' = Some (Inl (Err (ErrorString ''invalid start page: x'')))"
    using ParsePageRange_dash_range [of "''x''" "''4''"]
    by (simp add: Atoi_def is_digit_def)
  have 3: "ParsePageRange ''1-'' = Some (Inl (Err (ErrorString ''invalid end page: '')))"
    using ParsePageRange_dash_range [of "''1''" "[]"]
    by (simp add: Atoi_def is_digit_def digit_val_def MaxInt_def MinInt_def)
  have 4: "ParsePageRange ''1-2-3'' =
      Some (Inl (Err (ErrorString ''invalid page range format: 1-2-3'')))"
    using ParsePageRange_dash_range [of "[]" "[]"]
    by (simp add: Contains_def)
  from 1 2 3 4 show ?thesis by blast
qed

text \<open>
  C10. A non-empty input with neither a dash nor a comma, a single page number such as
  \<open>"5"\<close> included, makes ParsePageRange return an empty sequence and no error. The command
  then finds no page numbers and appends every page from 1 to \<open>numPages\<close> (a page count,
  below the largest \<open>int\<close>).
\<close>

theorem ParsePageRange_single_token_ignored:
  "pageRange \<noteq> [] \<Longrightarrow> \<not> Contains pageRange CHR ''-'' \<Longrightarrow> \<not> Contains pageRange CHR '','' \<Longrightarrow>
     ParsePageRange pageRange = Some (Inr []) \<and>
     requested_pages pageRange = Some (Inr []) \<and>
     (numPages < MaxInt \<longrightarrow> pages_to_process [] numPages = Some [1..numPages])"
  by (simp add: ParsePageRange_plain requested_pages_def pages_to_process_def range_loop_upto)

theorem ParsePageRange_single_token_ignored_witness:
  "ParsePageRange ''5'' = Some (Inr []) \<and>
   requested_pages ''5'' = Some (Inr []) \<and>
   pages_to_process [] 3 = Some [1, 2, 3]"
  using ParsePageRange_single_token_ignored [of "''5''" 3]
  by (simp add: Contains_def MaxInt_def upto_rec1)

section \<open>Facts about the scanning loop\<close>

lemma scan_loop_append:
  "scan_loop unmarshal resp fn pre s = (None, s') \<Longrightarrow>
   scan_loop unmarshal resp fn (pre @ rest) s = scan_loop unmarshal resp fn rest s'"
proof (induction pre arbitrary: s)
  case Nil
  then show ?case by simp
next
  case (Cons bts pre)
  from Cons.prems show ?case
    by (auto split: sum.splits if_splits prod.splits option.splits intro: Cons.IH)
qed

lemma scan_loop_passed_state:
  "scan_loop unmarshal resp fn pre s = (None, s') \<Longrightarrow>
   s' = foldl (\<lambda>s bts. snd (fn bts s)) s pre"
proof (induction pre arbitrary: s)
  case Nil
  then show ?case by simp
next
  case (Cons bts pre)
  from Cons.prems show ?case
    by (auto split: sum.splits if_splits prod.splits option.splits dest: Cons.IH)
qed

lemma scan_tokens_all_fit:
  "ps \<noteq> [] \<Longrightarrow> 0 < n \<Longrightarrow> \<forall>l\<in>set ps. length l < n \<Longrightarrow>
   scan_tokens n eof ps = map dropCR (if last ps = [] then butlast ps else ps)"
  by (induction n eof ps rule: scan_tokens.induct) auto

lemma scanned_all_fit:
  assumes "\<forall>l\<in>set (body_lines body). length l < maxBufferSize"
  shows "scanned eofWithData body = map dropCR (body_lines body)"
proof -
  let ?ps = "Split body CHR 0x0A"
  have ne: "?ps \<noteq> []" by (rule Split_not_Nil)
  have pos: "0 < maxBufferSize" by (simp add: maxBufferSize_def KiloByte_def)
  have "\<forall>l\<in>set ?ps. length l < maxBufferSize"
  proof
    fix l assume l: "l \<in> set ?ps"
    show "length l < maxBufferSize"
    proof (cases "last ?ps = []")
      case True
      from ne have "?ps = butlast ?ps @ [last ?ps]" by simp
      with l have "l \<in> set (butlast ?ps) \<or> l = last ?ps"
        by (metis Un_iff empty_iff empty_set set_ConsD set_append)
      with True assms pos show ?thesis by (auto simp: body_lines_def Let_def)
    next
      case False
      with l assms show ?thesis by (simp add: body_lines_def Let_def)
    qed
  qed
  from scan_tokens_all_fit [OF ne pos this]
  show ?thesis by (simp add: scanned_def body_lines_def Let_def)
qed

lemma scan_loop_on_run:
  assumes "StatusCode resp < StatusBadRequest"
  shows "\<forall>bts\<in>set lines. unmarshal bts = Inr [] \<Longrightarrow>
    \<forall>pre bts post. lines = pre @ bts # post \<longrightarrow>
       fst (fn bts (foldl (\<lambda>s bts. snd (fn bts s)) s pre)) = None \<Longrightarrow>
    scan_loop unmarshal resp fn lines s = (None, foldl (\<lambda>s bts. snd (fn bts s)) s lines)"
proof (induction lines arbitrary: s)
  case Nil
  then show ?case by simp
next
  case (Cons bts lines)
  from Cons.prems(2) [rule_format, of "[]" bts lines] have "fst (fn bts s) = None" by simp
  then obtain s1 where s1: "fn bts s = (None, s1)" by (cases "fn bts s") auto
  have run: "\<forall>pre b post. lines = pre @ b # post \<longrightarrow>
       fst (fn b (foldl (\<lambda>s bts. snd (fn bts s)) s1 pre)) = None"
  proof (intro allI impI)
    fix pre b post assume "lines = pre @ b # post"
    then have "bts # lines = (bts # pre) @ b # post" by simp
    from Cons.prems(2) [rule_format, OF this] s1
    show "fst (fn b (foldl (\<lambda>s bts. snd (fn bts s)) s1 pre)) = None" by simp
  qed
  have "scan_loop unmarshal resp fn lines s1 = (None, foldl (\<lambda>s bts. snd (fn bts s)) s1 lines)"
    using Cons.prems(1) run by (intro Cons.IH) auto
  with Cons.prems(1) assms s1 show ?case by simp
qed

lemma scan_loop_decoded_on_run:
  assumes "StatusCode resp < StatusBadRequest"
  shows "\<forall>bts\<in>set lines. unmarshal bts = Inr [] \<Longrightarrow> map decode lines = map Inr rs \<Longrightarrow>
    \<forall>pre r post. rs = pre @ r # post \<longrightarrow>
       fst (gfn r (foldl (\<lambda>s r. snd (gfn r s)) s pre)) = None \<Longrightarrow>
    scan_loop unmarshal resp (decode_then_call decode gfn) lines s =
      (None, foldl (\<lambda>s r. snd (gfn r s)) s rs)"
proof (induction lines arbitrary: rs s)
  case Nil
  then show ?case by simp
next
  case (Cons bts lines)
  from Cons.prems(2) obtain r rs' where rs: "rs = r # rs'" "decode bts = Inr r"
    "map decode lines = map Inr rs'" by (cases rs) auto
  from Cons.prems(3) [rule_format, of "[]" r rs'] rs have "fst (gfn r s) = None" by simp
  then obtain s1 where s1: "gfn r s = (None, s1)" by (cases "gfn r s") auto
  have run: "\<forall>pre q post. rs' = pre @ q # post \<longrightarrow>
       fst (gfn q (foldl (\<lambda>s r. snd (gfn r s)) s1 pre)) = None"
  proof (intro allI impI)
    fix pre q post assume "rs' = pre @ q # post"
    then have "rs = (r # pre) @ q # post" using rs by simp
    from Cons.prems(3) [rule_format, OF this] s1
    show "fst (gfn q (foldl (\<lambda>s r. snd (gfn r s)) s1 pre)) = None" by simp
  qed
  have "scan_loop unmarshal resp (decode_then_call decode gfn) lines s1 =
      (None, foldl (\<lambda>s r. snd (gfn r s)) s1 rs')"
    using Cons.prems(1) rs(3) run by (intro Cons.IH) auto
  moreover have "decode_then_call decode gfn bts s = (None, s1)"
    using rs(2) s1 by (simp add: decode_then_call_def)
  ultimately show ?case using Cons.prems(1) assms rs(1) s1 by simp
qed

lemma foldl_record: "foldl (\<lambda>s x. s @ [x]) calls xs = calls @ xs"
  by (induction xs arbitrary: calls) auto

section \<open>Claims about the streaming client\<close>

text \<open>
  C3. Let the lines before \<open>bts\<close> pass without ending the stream, leaving the handler's
  state \<open>s'\<close>, and let the \<open>error\<close> field decoded from \<open>bts\<close> be a non-empty string
  \<open>msg\<close>. Then \<open>stream\<close> returns the error with the text \<open>msg\<close>, whatever the status code
  of the response, and the state it leaves is \<open>s'\<close>, the one the handler calls on the
  earlier lines produced: the handler runs neither on \<open>bts\<close> nor on a later line. The same
  holds for \<open>Generate\<close> and \<open>Chat\<close>.
\<close>

theorem stream_error_line_aborts:
  \<open>Body resp = pre @ bts # post \<Longrightarrow> unmarshal bts = Inr msg \<Longrightarrow> msg \<noteq> [] \<Longrightarrow>
     (scan_loop unmarshal resp fn pre s = (None, s') \<longrightarrow>
        stream unmarshal (Inr resp) fn s = (Some (ErrorString msg), s') \<and>
        s' = foldl (\<lambda>s bts. snd (fn bts s)) s pre) \<and>
     (scan_loop unmarshal resp (decode_then_call decode gfn) pre t = (None, t') \<longrightarrow>
        Generate unmarshal decode (Inr resp) gfn t = (Some (ErrorString msg), t') \<and>
        Chat unmarshal decode (Inr resp) gfn t = (Some (ErrorString msg), t'))\<close>
  by (simp add: stream_def Generate_def Chat_def scan_loop_append scan_loop_passed_state)

theorem stream_error_line_aborts_witness:
  \<open>stream (\<lambda>bts. if bts = ''{"error":"quota exceeded"}'' then Inr ''quota exceeded'' else Inr [])
     (Inr \<lparr>StatusCode = 200, Status = ''200 OK'',
           Body = [''{"response":"a"}'', ''{"error":"quota exceeded"}'', ''{"done":true}'']\<rparr>)
     (\<lambda>bts calls. (None, calls @ [bts])) []
     = (Some (ErrorString ''quota exceeded''), [''{"response":"a"}'']) \<and>
   stream (\<lambda>bts. if bts = ''{"error":"quota exceeded"}'' then Inr ''quota exceeded'' else Inr [])
     (Inr \<lparr>StatusCode = 500, Status = ''500 Internal Server Error'',
           Body = [''{"error":"quota exceeded"}'', ''{"done":true}'']\<rparr>)
     (\<lambda>bts calls. (None, calls @ [bts])) []
     = (Some (ErrorString ''quota exceeded''), []) \<and>
   Generate (\<lambda>bts. if bts = ''{"error":"quota exceeded"}'' then Inr ''quota exceeded'' else Inr [])
     Inr
     (Inr \<lparr>StatusCode = 200, Status = ''200 OK'',
           Body = [''{"response":"a"}'', ''{"error":"quota exceeded"}'', ''{"done":true}'']\<rparr>)
     (\<lambda>resp calls. (None, calls @ [resp])) []
     = (Some (ErrorString ''quota exceeded''), [''{"response":"a"}''])\<close>
proof -
  let ?u = \<open>\<lambda>bts. if bts = ''{"error":"quota exceeded"}'' then Inr ''quota exceeded'' else Inr []\<close>
  let ?ok = \<open>\<lparr>StatusCode = 200, Status = ''200 OK'',
           Body = [''{"response":"a"}'', ''{"error":"quota exceeded"}'', ''{"done":true}'']\<rparr>\<close>
  let ?bad = \<open>\<lparr>StatusCode = 500, Status = ''500 Internal Server Error'',
           Body = [''{"error":"quota exceeded"}'', ''{"done":true}'']\<rparr>\<close>
  have 1: \<open>stream ?u (Inr ?ok) (\<lambda>bts calls. (None, calls @ [bts])) []
      = (Some (ErrorString ''quota exceeded''), [''{"response":"a"}''])\<close>
    using stream_error_line_aborts [of ?ok \<open>[''{"response":"a"}'']\<close> \<open>''{"error":"quota exceeded"}''\<close>
        \<open>[''{"done":true}'']\<close> ?u \<open>''quota exceeded''\<close> \<open>\<lambda>bts calls. (None, calls @ [bts])\<close>
        \<open>[]\<close> \<open>[''{"response":"a"}'']\<close>, THEN conjunct1]
    by (simp add: StatusBadRequest_def)
  have 2: \<open>stream ?u (Inr ?bad) (\<lambda>bts calls. (None, calls @ [bts])) []
      = (Some (ErrorString ''quota exceeded''), [])\<close>
    using stream_error_line_aborts [of ?bad \<open>[]\<close> \<open>''{"error":"quota exceeded"}''\<close>
        \<open>[''{"done":true}'']\<close> ?u \<open>''quota exceeded''\<close> \<open>\<lambda>bts calls. (None, calls @ [bts])\<close>
        \<open>[]\<close> \<open>[]\<close>, THEN conjunct1]
    by simp
  have 3: \<open>Generate ?u Inr (Inr ?ok) (\<lambda>resp calls. (None, calls @ [resp])) []
      = (Some (ErrorString ''quota exceeded''), [''{"response":"a"}''])\<close>
    using stream_error_line_aborts [of ?ok \<open>[''{"response":"a"}'']\<close> \<open>''{"error":"quota exceeded"}''\<close>
        \<open>[''{"done":true}'']\<close> ?u \<open>''quota exceeded''\<close> _ _ _ Inr
        \<open>\<lambda>resp calls. (None, calls @ [resp])\<close> \<open>[]\<close> \<open>[''{"response":"a"}'']\<close>, THEN conjunct2]
    by (simp add: StatusBadRequest_def decode_then_call_def)
  from 1 2 3 show ?thesis by blast
qed

text \<open>
  C4, as stated: for every body of \<open>N\<close> well-formed lines without an error field, under a
  status below 400, the handler is called \<open>N\<close> times. The scanner's buffer has 512000
  bytes: a body of one well-formed line of 512015 bytes and its newline yields no token, so
  \<open>stream\<close> and \<open>Generate\<close> return \<open>nil\<close> without a single call of the handler.
\<close>

theorem stream_long_line_not_handled:
  \<open>body_lines (''{"response":"'' @ replicate 512000 CHR ''a'' @ ''"}'' @ [CHR 0x0A]) =
     [''{"response":"'' @ replicate 512000 CHR ''a'' @ ''"}''] \<and>
   stream (\<lambda>bts. Inr [])
     (Inr \<lparr>StatusCode = 200, Status = ''200 OK'',
           Body = scanned False
             (''{"response":"'' @ replicate 512000 CHR ''a'' @ ''"}'' @ [CHR 0x0A])\<rparr>)
     (\<lambda>bts calls. (None, calls @ [bts])) [] = (None, []) \<and>
   Generate (\<lambda>bts. Inr []) Inr
     (Inr \<lparr>StatusCode = 200, Status = ''200 OK'',
           Body = scanned False
             (''{"response":"'' @ replicate 512000 CHR ''a'' @ ''"}'' @ [CHR 0x0A])\<rparr>)
     (\<lambda>resp calls. (None, calls @ [resp])) [] = (None, [])\<close>
proof -
  let ?line = \<open>''{"response":"'' @ replicate 512000 CHR ''a'' @ ''"}''\<close>
  have \<open>CHR 0x0A \<notin> set ?line\<close> by simp
  then have sp: \<open>Split (?line @ CHR 0x0A # []) CHR 0x0A = [?line, []]\<close>
    by (intro Split_one_sep) simp_all
  have len: \<open>\<not> length ?line < maxBufferSize\<close>
    by (simp add: maxBufferSize_def KiloByte_def)
  have sc: \<open>scanned False (?line @ [CHR 0x0A]) = []\<close>
    using sp len by (simp add: scanned_def)
  have bl: \<open>body_lines (?line @ [CHR 0x0A]) = [?line]\<close>
    using sp by (simp add: body_lines_def)
  show ?thesis
    using sc bl by (simp add: stream_def Generate_def)
qed

text \<open>
  C4, amended. Let the status code be below 400 and let every line of the body be shorter
  than the 512000 bytes of the scanner's buffer and decode with an empty \<open>error\<close> field.
  If the handler returns no error at the calls of the run, \<open>stream\<close> returns \<open>nil\<close> and the
  handler's state is the one left by calling it on each line (without its line end), once,
  in the order of the lines; a handler that records its argument ends with exactly the
  lines of the body. If moreover the lines decode into the responses \<open>rs\<close>, \<open>Generate\<close> and
  \<open>Chat\<close> call the caller's handler on each response of \<open>rs\<close>, once and in order, as many
  times as the body has lines, and return \<open>nil\<close>. If the handler returns an error at a line
  that the loop reaches, \<open>stream\<close> (and \<open>Generate\<close> and \<open>Chat\<close>, where the line decodes
  into a response) returns exactly that error with the state of that call: no later line
  is read.
\<close>

theorem stream_calls_handler_per_line:
  \<open>(StatusCode resp < StatusBadRequest \<and> Body resp = scanned eofWithData body \<and>
    (\<forall>l\<in>set (body_lines body). length l < maxBufferSize \<and> unmarshal (dropCR l) = Inr []) \<longrightarrow>
      ((\<forall>pre bts post. map dropCR (body_lines body) = pre @ bts # post \<longrightarrow>
           fst (fn bts (foldl (\<lambda>s bts. snd (fn bts s)) s pre)) = None) \<longrightarrow>
         stream unmarshal (Inr resp) fn s =
           (None, foldl (\<lambda>s bts. snd (fn bts s)) s (map dropCR (body_lines body)))) \<and>
      stream unmarshal (Inr resp) (\<lambda>bts calls. (None, calls @ [bts])) [] =
        (None, map dropCR (body_lines body)) \<and>
      (map decode (map dropCR (body_lines body)) = map Inr rs \<longrightarrow>
         ((\<forall>pre r post. rs = pre @ r # post \<longrightarrow>
              fst (gfn r (foldl (\<lambda>t r. snd (gfn r t)) t pre)) = None) \<longrightarrow>
            Generate unmarshal decode (Inr resp) gfn t = (None, foldl (\<lambda>t r. snd (gfn r t)) t rs) \<and>
            Chat unmarshal decode (Inr resp) gfn t = (None, foldl (\<lambda>t r. snd (gfn r t)) t rs)) \<and>
         Generate unmarshal decode (Inr resp) (\<lambda>r calls. (None, calls @ [r])) [] = (None, rs) \<and>
         Chat unmarshal decode (Inr resp) (\<lambda>r calls. (None, calls @ [r])) [] = (None, rs) \<and>
         length rs = length (body_lines body))) \<and>
   (scan_loop unmarshal resp fn pre s = (None, s') \<and> Body resp = pre @ bts # post \<and>
    unmarshal bts = Inr [] \<and> StatusCode resp < StatusBadRequest \<and> fn bts s' = (Some err, s'') \<longrightarrow>
      stream unmarshal (Inr resp) fn s = (Some err, s'')) \<and>
   (scan_loop unmarshal resp (decode_then_call decode gfn) pre t = (None, t') \<and>
    Body resp = pre @ bts # post \<and> unmarshal bts = Inr [] \<and>
    StatusCode resp < StatusBadRequest \<and> decode bts = Inr r \<and> gfn r t' = (Some err, t'') \<longrightarrow>
      Generate unmarshal decode (Inr resp) gfn t = (Some err, t'') \<and>
      Chat unmarshal decode (Inr resp) gfn t = (Some err, t''))\<close>
proof (intro conjI impI)
  assume h: \<open>StatusCode resp < StatusBadRequest \<and> Body resp = scanned eofWithData body \<and>
    (\<forall>l\<in>set (body_lines body). length l < maxBufferSize \<and> unmarshal (dropCR l) = Inr [])\<close>
  let ?tokens = \<open>map dropCR (body_lines body)\<close>
  from h have st: \<open>StatusCode resp < StatusBadRequest\<close> by simp
  from h have body: \<open>Body resp = ?tokens\<close> by (simp add: scanned_all_fit)
  from h have um: \<open>\<forall>bts\<in>set ?tokens. unmarshal bts = Inr []\<close> by simp
  {
    assume \<open>\<forall>pre bts post. ?tokens = pre @ bts # post \<longrightarrow>
           fst (fn bts (foldl (\<lambda>s bts. snd (fn bts s)) s pre)) = None\<close>
    from scan_loop_on_run [OF st um this] body
    show \<open>stream unmarshal (Inr resp) fn s = (None, foldl (\<lambda>s bts. snd (fn bts s)) s ?tokens)\<close>
      by (simp add: stream_def)
  }
  have rec: \<open>scan_loop unmarshal resp (\<lambda>bts calls. (None, calls @ [bts])) ?tokens [] = (None, ?tokens)\<close>
    using scan_loop_on_run [OF st um, of \<open>\<lambda>bts calls. (None, calls @ [bts])\<close> \<open>[]\<close>]
    by (simp add: foldl_record)
  with body show \<open>stream unmarshal (Inr resp) (\<lambda>bts calls. (None, calls @ [bts])) [] = (None, ?tokens)\<close>
    by (simp add: stream_def)
  {
    assume d: \<open>map decode ?tokens = map Inr rs\<close>
    {
      assume \<open>\<forall>pre r post. rs = pre @ r # post \<longrightarrow>
              fst (gfn r (foldl (\<lambda>t r. snd (gfn r t)) t pre)) = None\<close>
      from scan_loop_decoded_on_run [OF st um d this] body
      show \<open>Generate unmarshal decode (Inr resp) gfn t = (None, foldl (\<lambda>t r. snd (gfn r t)) t rs)\<close>
        and \<open>Chat unmarshal decode (Inr resp) gfn t = (None, foldl (\<lambda>t r. snd (gfn r t)) t rs)\<close>
        by (simp_all add: stream_def Generate_def Chat_def)
    }
    have \<open>scan_loop unmarshal resp (decode_then_call decode (\<lambda>r calls. (None, calls @ [r]))) ?tokens [] =
        (None, rs)\<close>
      using scan_loop_decoded_on_run [OF st um d, of \<open>\<lambda>r calls. (None, calls @ [r])\<close> \<open>[]\<close>]
      by (simp add: foldl_record)
    with body show \<open>Generate unmarshal decode (Inr resp) (\<lambda>r calls. (None, calls @ [r])) [] = (None, rs)\<close>
      and \<open>Chat unmarshal decode (Inr resp) (\<lambda>r calls. (None, calls @ [r])) [] = (None, rs)\<close>
      by (simp_all add: stream_def Generate_def Chat_def)
    from d have \<open>length ?tokens = length rs\<close> by (metis length_map)
    then show \<open>length rs = length (body_lines body)\<close> by simp
  }
next
  assume \<open>scan_loop unmarshal resp fn pre s = (None, s') \<and> Body resp = pre @ bts # post \<and>
    unmarshal bts = Inr [] \<and> StatusCode resp < StatusBadRequest \<and> fn bts s' = (Some err, s'')\<close>
  then show \<open>stream unmarshal (Inr resp) fn s = (Some err, s'')\<close>
    by (simp add: stream_def scan_loop_append)
next
  assume a: \<open>scan_loop unmarshal resp (decode_then_call decode gfn) pre t = (None, t') \<and>
    Body resp = pre @ bts # post \<and> unmarshal bts = Inr [] \<and>
    StatusCode resp < StatusBadRequest \<and> decode bts = Inr r \<and> gfn r t' = (Some err, t'')\<close>
  then have \<open>decode_then_call decode gfn bts t' = (Some err, t'')\<close>
    by (simp add: decode_then_call_def)
  with a show \<open>Generate unmarshal decode (Inr resp) gfn t = (Some err, t'')\<close>
    by (simp add: stream_def Generate_def scan_loop_append)
  from \<open>decode_then_call decode gfn bts t' = (Some err, t'')\<close> a
  show \<open>Chat unmarshal decode (Inr resp) gfn t = (Some err, t'')\<close>
    by (simp add: stream_def Chat_def scan_loop_append)
qed

theorem stream_calls_handler_per_line_witness:
  \<open>stream (\<lambda>bts. Inr [])
     (Inr \<lparr>StatusCode = 200, Status = ''200 OK'',
           Body = scanned False
             (''{"response":"a"}'' @ [CHR 0x0A] @ ''{"response":"b"}'' @ [CHR 0x0A] @
              ''{"done":true}'' @ [CHR 0x0A])\<rparr>)
     (\<lambda>bts calls. (None, calls @ [bts])) []
     = (None, [''{"response":"a"}'', ''{"response":"b"}'', ''{"done":true}'']) \<and>
   Generate (\<lambda>bts. Inr []) (\<lambda>bts. Inr (bts = ''{"done":true}''))
     (Inr \<lparr>StatusCode = 200, Status = ''200 OK'',
           Body = scanned False
             (''{"response":"a"}'' @ [CHR 0x0A] @ ''{"response":"b"}'' @ [CHR 0x0A] @
              ''{"done":true}'' @ [CHR 0x0A])\<rparr>)
     (\<lambda>resp calls. (None, calls @ [resp])) []
     = (None, [False, False, True]) \<and>
   stream (\<lambda>bts. Inr [])
     (Inr \<lparr>StatusCode = 200, Status = ''200 OK'',
           Body = scanned False
             (''{"response":"a"}'' @ [CHR 0x0A] @ ''{"response":"b"}'' @ [CHR 0x0A] @
              ''{"done":true}'' @ [CHR 0x0A])\<rparr>)
     (\<lambda>bts calls. (if length calls < 5 then None else Some (ErrorString ''limit''),
                    calls @ [bts])) []
     = (None, [''{"response":"a"}'', ''{"response":"b"}'', ''{"done":true}'']) \<and>
   stream (\<lambda>bts. Inr [])
     (Inr \<lparr>StatusCode = 200, Status = ''200 OK'',
           Body = [''{"response":"a"}'', ''{"response":"b"}'', ''{"done":true}'']\<rparr>)
     (\<lambda>bts calls. (if bts = ''{"response":"b"}'' then Some (ErrorString ''stop'') else None,
                    calls @ [bts])) []
     = (Some (ErrorString ''stop''), [''{"response":"a"}'', ''{"response":"b"}'']) \<and>
   Generate (\<lambda>bts. Inr []) Inr
     (Inr \<lparr>StatusCode = 200, Status = ''200 OK'',
           Body = [''{"response":"a"}'', ''{"response":"b"}'', ''{"done":true}'']\<rparr>)
     (\<lambda>resp calls. (if resp = ''{"response":"b"}'' then Some (ErrorString ''stop'') else None,
                     calls @ [resp])) []
     = (Some (ErrorString ''stop''), [''{"response":"a"}'', ''{"response":"b"}''])\<close>
proof -
  let ?l1 = \<open>''{"response":"a"}''\<close> and ?l2 = \<open>''{"response":"b"}''\<close> and ?l3 = \<open>''{"done":true}''\<close>
  let ?body = \<open>?l1 @ [CHR 0x0A] @ ?l2 @ [CHR 0x0A] @ ?l3 @ [CHR 0x0A]\<close>
  let ?resp = \<open>\<lparr>StatusCode = 200, Status = ''200 OK'', Body = scanned False ?body\<rparr>\<close>
  let ?resp' = \<open>\<lparr>StatusCode = 200, Status = ''200 OK'', Body = [?l1, ?l2, ?l3]\<rparr>\<close>
  let ?u = \<open>\<lambda>bts :: string. Inr [] :: error + string\<close>
  let ?limit = \<open>\<lambda>(bts :: string) calls :: string list.
      (if length calls < 5 then None else Some (ErrorString ''limit''), calls @ [bts])\<close>
  let ?stop = \<open>\<lambda>(bts :: string) calls :: string list.
      (if bts = ?l2 then Some (ErrorString ''stop'') else None, calls @ [bts])\<close>
  have bl: \<open>body_lines ?body = [?l1, ?l2, ?l3]\<close>
    by (simp add: body_lines_def)
  have cr: \<open>map dropCR [?l1, ?l2, ?l3] = [?l1, ?l2, ?l3]\<close>
    by (simp add: dropCR_def)
  have H: \<open>StatusCode ?resp < StatusBadRequest \<and> Body ?resp = scanned False ?body \<and>
    (\<forall>l\<in>set (body_lines ?body). length l < maxBufferSize \<and> ?u (dropCR l) = Inr [])\<close>
    unfolding bl by (simp add: StatusBadRequest_def maxBufferSize_def KiloByte_def)
  note first = stream_calls_handler_per_line [THEN conjunct1, THEN mp, OF H]
  have 1: \<open>stream ?u (Inr ?resp) (\<lambda>bts calls. (None, calls @ [bts])) [] = (None, [?l1, ?l2, ?l3])\<close>
    using first [THEN conjunct2, THEN conjunct1] by (simp only: bl cr)
  have d: \<open>map (\<lambda>bts. Inr (bts = ?l3)) (map dropCR (body_lines ?body)) =
      (map Inr [False, False, True] :: (error + bool) list)\<close>
    unfolding bl cr by simp
  have 2: \<open>Generate ?u (\<lambda>bts. Inr (bts = ?l3)) (Inr ?resp) (\<lambda>resp calls. (None, calls @ [resp])) []
      = (None, [False, False, True])\<close>
    by (rule first [THEN conjunct2, THEN conjunct2, THEN mp, OF d, THEN conjunct2, THEN conjunct1])
  have run: \<open>\<forall>pre bts post. map dropCR (body_lines ?body) = pre @ bts # post \<longrightarrow>
      fst (?limit bts (foldl (\<lambda>s bts. snd (?limit bts s)) [] pre)) = None\<close>
  proof (intro allI impI)
    fix pre :: \<open>string list\<close> and bts post
    assume \<open>map dropCR (body_lines ?body) = pre @ bts # post\<close>
    then have \<open>length (pre @ bts # post) = 3\<close> by (simp only: bl cr) (metis length_Cons list.size(3) numeral_3_eq_3)
    then have \<open>length pre < 5\<close> by simp
    moreover have \<open>foldl (\<lambda>s bts. snd (?limit bts s)) [] pre = pre\<close>
      by (simp add: foldl_record)
    ultimately show \<open>fst (?limit bts (foldl (\<lambda>s bts. snd (?limit bts s)) [] pre)) = None\<close>
      by simp
  qed
  have 3: \<open>stream ?u (Inr ?resp) ?limit [] = (None, [?l1, ?l2, ?l3])\<close>
    using first [THEN conjunct1, THEN mp, OF run] unfolding bl cr by (simp add: foldl_record)
  have h4: \<open>scan_loop ?u ?resp' ?stop [?l1] [] = (None, [?l1]) \<and> Body ?resp' = [?l1] @ ?l2 # [?l3] \<and>
      ?u ?l2 = Inr [] \<and> StatusCode ?resp' < StatusBadRequest \<and>
      ?stop ?l2 [?l1] = (Some (ErrorString ''stop''), [?l1, ?l2])\<close>
    by (simp add: StatusBadRequest_def)
  have 4: \<open>stream ?u (Inr ?resp') ?stop [] = (Some (ErrorString ''stop''), [?l1, ?l2])\<close>
    by (rule stream_calls_handler_per_line [THEN conjunct2, THEN conjunct1, THEN mp, OF h4])
  have h5: \<open>scan_loop ?u ?resp' (decode_then_call Inr ?stop) [?l1] [] = (None, [?l1]) \<and>
      Body ?resp' = [?l1] @ ?l2 # [?l3] \<and> ?u ?l2 = Inr [] \<and>
      StatusCode ?resp' < StatusBadRequest \<and> (Inr ?l2 :: error + string) = Inr ?l2 \<and>
      ?stop ?l2 [?l1] = (Some (ErrorString ''stop''), [?l1, ?l2])\<close>
    by (simp add: StatusBadRequest_def decode_then_call_def)
  have 5: \<open>Generate ?u Inr (Inr ?resp') ?stop [] = (Some (ErrorString ''stop''), [?l1, ?l2])\<close>
    by (rule stream_calls_handler_per_line [THEN conjunct2, THEN conjunct2, THEN mp, OF h5, THEN conjunct1])
  from 1 2 3 4 5 show ?thesis by simp
qed

text \<open>
  C9. A response with a status code of 400 or more and a body of no lines: the loop body,
  which holds the only test of the status code, never runs, so \<open>stream\<close> (and \<open>Generate\<close>
  and \<open>Chat\<close>) returns \<open>nil\<close>, the handler is not called (its state is unchanged) and no
  \<open>StatusError\<close> is built; the outcome is that of the same empty body under status 200.
\<close>

theorem stream_error_status_empty_body:
  \<open>StatusBadRequest \<le> StatusCode resp \<Longrightarrow> Body resp = [] \<Longrightarrow>
     stream unmarshal (Inr resp) fn s = (None, s) \<and>
     Generate unmarshal decode (Inr resp) gfn s = (None, s) \<and>
     Chat unmarshal decode (Inr resp) gfn s = (None, s) \<and>
     stream unmarshal (Inr resp) fn s = stream unmarshal (Inr (resp\<lparr>StatusCode := 200\<rparr>)) fn s\<close>
  by (simp add: stream_def Generate_def Chat_def)

theorem stream_error_status_empty_body_witness:
  \<open>stream (\<lambda>bts. Inr [])
     (Inr \<lparr>StatusCode = 500, Status = ''500 Internal Server Error'', Body = []\<rparr>)
     (\<lambda>bts calls. (None, calls @ [bts])) [] = (None, []) \<and>
   Generate (\<lambda>bts. Inr []) Inr
     (Inr \<lparr>StatusCode = 500, Status = ''500 Internal Server Error'', Body = []\<rparr>)
     (\<lambda>resp calls. (None, calls @ [resp])) [] = (None, [])\<close>
  using stream_error_status_empty_body
    [of \<open>\<lparr>StatusCode = 500, Status = ''500 Internal Server Error'', Body = []\<rparr>\<close>
        \<open>\<lambda>bts. Inr []\<close> \<open>\<lambda>bts calls. (None, calls @ [bts])\<close> \<open>[]\<close> Inr
        \<open>\<lambda>resp calls. (None, calls @ [resp])\<close>]
  by (simp add: StatusBadRequest_def)

section \<open>Facts about RenderPdfPage and the rendering loop\<close>

lemma RenderPdfPage_fst:
  "fst (RenderPdfPage env p page dir fs) = fst (RenderPdfPage env p page dir fs')"
  by (simp add: RenderPdfPage_def Let_def split: option.splits sum.splits)

lemma RenderPdfPage_output:
  "RenderPdfPage env p page dir fs = (Inr output, fs') \<Longrightarrow>
   output = dir @ ''/page_'' @ Sprintf_d p @ ''.jpg''"
  by (auto simp: RenderPdfPage_def Let_def split: option.splits sum.splits)

lemma renders_iff:
  "renders env dir p \<longleftrightarrow>
   (\<exists>page output fs'. GetPage env p = Inr page \<and> RenderPdfPage env p page dir fs = (Inr output, fs'))"
proof -
  have "fst (RenderPdfPage env p page dir fs) = fst (RenderPdfPage env p page dir Map.empty)" for page
    by (rule RenderPdfPage_fst)
  then show ?thesis
    by (cases "GetPage env p")
       (auto simp: renders_def split: sum.splits, (metis fst_conv prod.collapse sum.distinct(1))+)
qed

lemma render_one_slots:
  "renderedPages (render_one env isParallel outputDir outDir numPages p st) =
     (if 1 \<le> p \<and> p \<le> numPages \<and> renders env (if isParallel then outDir else outputDir) p
      then (renderedPages st)
             [nat (p - 1) := \<lparr>pageNum = p,
                filePath = (if isParallel then outDir else outputDir) @ ''/page_'' @ Sprintf_d p @ ''.jpg''\<rparr>]
      else renderedPages st)"
proof (cases "p < 1 \<or> p > numPages")
  case True
  then show ?thesis by (auto simp: render_one_def)
next
  case False
  note inr = this
  show ?thesis
  proof (cases "GetPage env p")
    case (Inl err)
    with inr show ?thesis by (simp add: render_one_def renders_def)
  next
    case (Inr page)
    let ?dir = "if isParallel then outDir else outputDir"
    obtain r fs' where r: "RenderPdfPage env p page ?dir (files st) = (r, fs')"
      by (cases "RenderPdfPage env p page ?dir (files st)")
    have e: "fst (RenderPdfPage env p page ?dir Map.empty) = r"
      using RenderPdfPage_fst [of env p page ?dir Map.empty "files st"] r by simp
    show ?thesis
    proof (cases r)
      case (Inl err)
      with inr Inr r e show ?thesis
        by (cases isParallel) (simp_all add: render_one_def renders_def)
    next
      case (Inr out)
      with r have "out = ?dir @ ''/page_'' @ Sprintf_d p @ ''.jpg''"
        using RenderPdfPage_output by blast
      with inr \<open>GetPage env p = Inr page\<close> Inr r e show ?thesis
        by (cases isParallel) (simp_all add: render_one_def renders_def)
    qed
  qed
qed

lemma render_one_out_of_range:
  "p < 1 \<or> numPages < p \<Longrightarrow>
   render_one env isParallel outputDir outDir numPages p st =
     st\<lparr>printed := printed st @ [PageOutOfRange p]\<rparr>"
  by (auto simp: render_one_def)

lemma render_one_printed_mono:
  "set (printed st) \<subseteq> set (printed (render_one env isParallel outputDir outDir numPages p st))"
  by (auto simp: render_one_def split: sum.splits prod.splits)

lemma render_one_same:
  "renderedPages st = renderedPages st' \<Longrightarrow> files st = files st' \<Longrightarrow>
   renderedPages (render_one env isParallel outputDir outDir numPages p st) =
     renderedPages (render_one env isParallel outputDir outDir numPages p st') \<and>
   files (render_one env isParallel outputDir outDir numPages p st) =
     files (render_one env isParallel outputDir outDir numPages p st')"
  by (auto simp: render_one_def split: sum.splits prod.splits)

lemma render_loop_length:
  "length (renderedPages (foldl (\<lambda>st p. render_one env isParallel outputDir outDir numPages p st) st ps)) =
   length (renderedPages st)"
  by (induction ps arbitrary: st) (simp_all add: render_one_slots)

lemma render_loop_slot:
  "i < length (renderedPages st) \<Longrightarrow>
   renderedPages (foldl (\<lambda>st p. render_one env isParallel outputDir outDir numPages p st) st ps) ! i =
     (if \<exists>p\<in>set ps. 1 \<le> p \<and> p \<le> numPages \<and> nat (p - 1) = i \<and>
           renders env (if isParallel then outDir else outputDir) p
      then \<lparr>pageNum = int i + 1,
            filePath = (if isParallel then outDir else outputDir) @ ''/page_'' @ Sprintf_d (int i + 1) @ ''.jpg''\<rparr>
      else renderedPages st ! i)"
proof (induction ps arbitrary: st)
  case Nil
  then show ?case by simp
next
  case (Cons p ps)
  let ?st1 = "render_one env isParallel outputDir outDir numPages p st"
  have len: "i < length (renderedPages ?st1)"
    using Cons.prems by (simp add: render_one_slots)
  have p_eq: "1 \<le> p \<Longrightarrow> nat (p - 1) = i \<Longrightarrow> p = int i + 1" by simp
  have here: "renderedPages ?st1 ! i =
     (if 1 \<le> p \<and> p \<le> numPages \<and> nat (p - 1) = i \<and>
           renders env (if isParallel then outDir else outputDir) p
      then \<lparr>pageNum = int i + 1,
            filePath = (if isParallel then outDir else outputDir) @ ''/page_'' @ Sprintf_d (int i + 1) @ ''.jpg''\<rparr>
      else renderedPages st ! i)"
    using Cons.prems p_eq by (auto simp: render_one_slots nth_list_update)
  show ?case
    using Cons.IH [OF len] here by auto
qed

lemma render_loop_printed:
  "p \<in> set ps \<Longrightarrow> p < 1 \<or> numPages < p \<Longrightarrow>
   PageOutOfRange p \<in> set (printed (foldl (\<lambda>st p. render_one env isParallel outputDir outDir numPages p st) st ps))"
proof -
  have mono: "set (printed st) \<subseteq>
      set (printed (foldl (\<lambda>st p. render_one env isParallel outputDir outDir numPages p st) st ps))"
    for st ps
  proof (induction ps arbitrary: st)
    case Nil
    then show ?case by simp
  next
    case (Cons q qs)
    show ?case
      using render_one_printed_mono [of st env isParallel outputDir outDir numPages q]
        Cons.IH [of "render_one env isParallel outputDir outDir numPages q st"]
      by auto
  qed
  show "p \<in> set ps \<Longrightarrow> p < 1 \<or> numPages < p \<Longrightarrow> ?thesis"
  proof (induction ps arbitrary: st)
    case Nil
    then show ?case by simp
  next
    case (Cons q qs)
    show ?case
    proof (cases "q = p")
      case True
      have "PageOutOfRange p \<in> set (printed (render_one env isParallel outputDir outDir numPages p st))"
        using Cons.prems(2) by (simp add: render_one_out_of_range)
      with mono [of "render_one env isParallel outputDir outDir numPages p st" qs] True
      show ?thesis by auto
    next
      case False
      with Cons.prems have "p \<in> set qs" by simp
      from Cons.IH [OF this Cons.prems(2)] show ?thesis by simp
    qed
  qed
qed

lemma render_loop_skips:
  "renderedPages st = renderedPages st' \<Longrightarrow> files st = files st' \<Longrightarrow>
   renderedPages (foldl (\<lambda>st p. render_one env isParallel outputDir outDir numPages p st) st ps) =
     renderedPages (foldl (\<lambda>st p. render_one env isParallel outputDir outDir numPages p st) st'
        (filter (\<lambda>p. 1 \<le> p \<and> p \<le> numPages) ps)) \<and>
   files (foldl (\<lambda>st p. render_one env isParallel outputDir outDir numPages p st) st ps) =
     files (foldl (\<lambda>st p. render_one env isParallel outputDir outDir numPages p st) st'
        (filter (\<lambda>p. 1 \<le> p \<and> p \<le> numPages) ps))"
proof (induction ps arbitrary: st st')
  case Nil
  then show ?case by simp
next
  case (Cons p ps)
  show ?case
  proof (cases "1 \<le> p \<and> p \<le> numPages")
    case True
    from render_one_same [OF Cons.prems, of env isParallel outputDir outDir numPages p]
    show ?thesis using True Cons.IH by simp
  next
    case False
    then have "render_one env isParallel outputDir outDir numPages p st =
        st\<lparr>printed := printed st @ [PageOutOfRange p]\<rparr>"
      by (intro render_one_out_of_range) auto
    moreover have "filter (\<lambda>p. 1 \<le> p \<and> p \<le> numPages) (p # ps) =
        filter (\<lambda>p. 1 \<le> p \<and> p \<le> numPages) ps"
      using False by simp
    ultimately show ?thesis
      using Cons.IH [of "st\<lparr>printed := printed st @ [PageOutOfRange p]\<rparr>" st'] Cons.prems
      by (simp del: filter.simps)
  qed
qed

section \<open>Claims about the rendering loop\<close>

text \<open>
  C5. For every list of requested pages and every page count \<open>numPages\<close>: the result slice has
  \<open>numPages\<close> slots; slot \<open>p - 1\<close> holds page \<open>p\<close> with its file path exactly when \<open>p\<close>
  was requested and rendered successfully, and is the zero value otherwise; every requested
  page outside \<open>[1, numPages]\<close> is reported by a warning and changes nothing else: slots and
  files are those of the run on the requested pages without the ones out of range. The
  same holds in both modes (for the parallel mode, in the model that runs each goroutine
  at its dispatch). With 5 pages and the request \<open>[1,3,7]\<close>, all renders succeeding,
  exactly the slots 0 and 2 are filled.
\<close>

theorem render_pages_slots:
  "0 \<le> numPages \<Longrightarrow>
   length (renderedPages (render_pages env isParallel outputDir outDir numPages pageNumbers fs)) =
     nat numPages \<and>
   (\<forall>i < nat numPages.
      renderedPages (render_pages env isParallel outputDir outDir numPages pageNumbers fs) ! i =
        (if int i + 1 \<in> set pageNumbers \<and>
            renders env (if isParallel then outDir else outputDir) (int i + 1)
         then \<lparr>pageNum = int i + 1,
               filePath = (if isParallel then outDir else outputDir) @
                 ''/page_'' @ Sprintf_d (int i + 1) @ ''.jpg''\<rparr>
         else zero_renderedPage)) \<and>
   (\<forall>p \<in> set pageNumbers. p < 1 \<or> numPages < p \<longrightarrow>
      PageOutOfRange p \<in>
        set (printed (render_pages env isParallel outputDir outDir numPages pageNumbers fs))) \<and>
   renderedPages (render_pages env isParallel outputDir outDir numPages pageNumbers fs) =
     renderedPages (render_pages env isParallel outputDir outDir numPages
        (filter (\<lambda>p. 1 \<le> p \<and> p \<le> numPages) pageNumbers) fs) \<and>
   files (render_pages env isParallel outputDir outDir numPages pageNumbers fs) =
     files (render_pages env isParallel outputDir outDir numPages
        (filter (\<lambda>p. 1 \<le> p \<and> p \<le> numPages) pageNumbers) fs)"
proof (intro conjI allI impI ballI)
  show "length (renderedPages (render_pages env isParallel outputDir outDir numPages pageNumbers fs)) =
     nat numPages"
    by (simp add: render_pages_def render_loop_length)
next
  fix i assume i: "i < nat numPages"
  let ?dir = "if isParallel then outDir else outputDir"
  have "(\<exists>p\<in>set pageNumbers. 1 \<le> p \<and> p \<le> numPages \<and> nat (p - 1) = i \<and> renders env ?dir p) \<longleftrightarrow>
        (int i + 1 \<in> set pageNumbers \<and> renders env ?dir (int i + 1))"
  proof
    assume "\<exists>p\<in>set pageNumbers. 1 \<le> p \<and> p \<le> numPages \<and> nat (p - 1) = i \<and> renders env ?dir p"
    then obtain p where p: "p \<in> set pageNumbers" "1 \<le> p" "nat (p - 1) = i" "renders env ?dir p"
      by blast
    then have "p = int i + 1" by simp
    with p show "int i + 1 \<in> set pageNumbers \<and> renders env ?dir (int i + 1)" by simp
  next
    assume "int i + 1 \<in> set pageNumbers \<and> renders env ?dir (int i + 1)"
    moreover have "1 \<le> int i + 1" "int i + 1 \<le> numPages" "nat (int i + 1 - 1) = i"
      using i by simp_all
    ultimately show "\<exists>p\<in>set pageNumbers. 1 \<le> p \<and> p \<le> numPages \<and> nat (p - 1) = i \<and> renders env ?dir p"
      by blast
  qed
  with i show "renderedPages (render_pages env isParallel outputDir outDir numPages pageNumbers fs) ! i =
        (if int i + 1 \<in> set pageNumbers \<and> renders env ?dir (int i + 1)
         then \<lparr>pageNum = int i + 1, filePath = ?dir @ ''/page_'' @ Sprintf_d (int i + 1) @ ''.jpg''\<rparr>
         else zero_renderedPage)"
    unfolding render_pages_def by (subst render_loop_slot) simp_all
next
  fix p assume "p \<in> set pageNumbers" "p < 1 \<or> numPages < p"
  then show "PageOutOfRange p \<in>
        set (printed (render_pages env isParallel outputDir outDir numPages pageNumbers fs))"
    by (simp add: render_pages_def render_loop_printed)
next
  show "renderedPages (render_pages env isParallel outputDir outDir numPages pageNumbers fs) =
     renderedPages (render_pages env isParallel outputDir outDir numPages
        (filter (\<lambda>p. 1 \<le> p \<and> p \<le> numPages) pageNumbers) fs)"
    unfolding render_pages_def using render_loop_skips [OF refl refl] by blast
next
  show "files (render_pages env isParallel outputDir outDir numPages pageNumbers fs) =
     files (render_pages env isParallel outputDir outDir numPages
        (filter (\<lambda>p. 1 \<le> p \<and> p \<le> numPages) pageNumbers) fs)"
    unfolding render_pages_def using render_loop_skips [OF refl refl] by blast
qed

theorem render_pages_slots_witness:
  "renderedPages
     (render_pages
        \<lparr>GetPage = (\<lambda>p. Inr (Some p)), Render = (\<lambda>pg. Inr pg),
         Create = (\<lambda>path. None), Encode = (\<lambda>img. None)\<rparr>
        True ''out'' ''out/report'' 5 [1, 3, 7] (Map.empty :: int files)) =
     [\<lparr>pageNum = 1, filePath = ''out/report/page_1.jpg''\<rparr>,
      zero_renderedPage,
      \<lparr>pageNum = 3, filePath = ''out/report/page_3.jpg''\<rparr>,
      zero_renderedPage,
      zero_renderedPage] \<and>
   PageOutOfRange 7 \<in> set (printed
     (render_pages
        \<lparr>GetPage = (\<lambda>p. Inr (Some p)), Render = (\<lambda>pg. Inr pg),
         Create = (\<lambda>path. None), Encode = (\<lambda>img. None)\<rparr>
        True ''out'' ''out/report'' 5 [1, 3, 7] (Map.empty :: int files)))"
proof -
  let ?env = "\<lparr>GetPage = (\<lambda>p::int. Inr (Some p)), Render = (\<lambda>pg::int. Inr pg),
         Create = (\<lambda>path. None), Encode = (\<lambda>img::int. None)\<rparr>"
  let ?st = "render_pages ?env True ''out'' ''out/report'' 5 [1, 3, 7] (Map.empty :: int files)"
  have "(0::int) \<le> 5" by simp
  note t = render_pages_slots [OF this, of ?env True "''out''" "''out/report''" "[1, 3, 7]" Map.empty]
  have len: "length (renderedPages ?st) = 5"
    using t [THEN conjunct1] by simp
  have ok: "renders ?env ''out/report'' p" for p
    by (simp add: renders_def RenderPdfPage_def Let_def)
  note slot = t [THEN conjunct2, THEN conjunct1, rule_format]
  have d: "Sprintf_d 1 = ''1''" "Sprintf_d 3 = ''3''"
    by (simp_all add: Sprintf_d_def digits_of.simps)
  have s0: "renderedPages ?st ! 0 = \<lparr>pageNum = 1, filePath = ''out/report/page_1.jpg''\<rparr>"
    using slot [of 0] ok [of 1] d by simp
  have s1: "renderedPages ?st ! 1 = zero_renderedPage"
    using slot [of 1] by simp
  have s2: "renderedPages ?st ! 2 = \<lparr>pageNum = 3, filePath = ''out/report/page_3.jpg''\<rparr>"
    using slot [of 2] ok [of 3] d by simp
  have s3: "renderedPages ?st ! 3 = zero_renderedPage"
    using slot [of 3] by simp
  have s4: "renderedPages ?st ! 4 = zero_renderedPage"
    using slot [of 4] by simp
  have "xs = [xs ! 0, xs ! 1, xs ! 2, xs ! 3, xs ! 4]" if "length xs = 5" for xs :: "renderedPage list"
    using that by (auto simp: list_eq_iff_nth_eq less_Suc_eq numeral_eq_Suc nth_Cons')
  from this [OF len] s0 s1 s2 s3 s4 have "renderedPages ?st =
     [\<lparr>pageNum = 1, filePath = ''out/report/page_1.jpg''\<rparr>, zero_renderedPage,
      \<lparr>pageNum = 3, filePath = ''out/report/page_3.jpg''\<rparr>, zero_renderedPage, zero_renderedPage]"
    by simp
  moreover have "PageOutOfRange 7 \<in> set (printed ?st)"
    using t [THEN conjunct2, THEN conjunct2, THEN conjunct1, rule_format, of 7] by simp
  ultimately show ?thesis by simp
qed

text \<open>
  C6. The claim: in both modes the image of page \<open>N\<close> is written to
  \<open>page_N.jpg\<close> in the directory of the PDF file, \<open>outDir\<close>. The goroutine of the
  parallel mode passes \<open>outDir\<close> to \<open>RenderPdfPage\<close>, the sequential branch passes
  \<open>outputDir\<close>: with the output directory \<open>out\<close>, the PDF \<open>report.pdf\<close> (so \<open>outDir\<close>
  is \<open>out/report\<close>) and page 1, the sequential run writes \<open>out/page_1.jpg\<close> and nothing
  at \<open>out/report/page_1.jpg\<close>, where the parallel run writes the image.
\<close>

theorem sequential_mode_writes_into_output_dir:
  "files
     (render_pages
        \<lparr>GetPage = (\<lambda>p. Inr (Some p)), Render = (\<lambda>pg. Inr pg),
         Create = (\<lambda>path. None), Encode = (\<lambda>img. None)\<rparr>
        False ''out'' ''out/report'' 1 [1] (Map.empty :: int files))
     ''out/report/page_1.jpg'' = None \<and>
   files
     (render_pages
        \<lparr>GetPage = (\<lambda>p. Inr (Some p)), Render = (\<lambda>pg. Inr pg),
         Create = (\<lambda>path. None), Encode = (\<lambda>img. None)\<rparr>
        False ''out'' ''out/report'' 1 [1] (Map.empty :: int files))
     ''out/page_1.jpg'' = Some (Encoded 1) \<and>
   renderedPages
     (render_pages
        \<lparr>GetPage = (\<lambda>p. Inr (Some p)), Render = (\<lambda>pg. Inr pg),
         Create = (\<lambda>path. None), Encode = (\<lambda>img. None)\<rparr>
        False ''out'' ''out/report'' 1 [1] (Map.empty :: int files)) =
     [\<lparr>pageNum = 1, filePath = ''out/page_1.jpg''\<rparr>] \<and>
   files
     (render_pages
        \<lparr>GetPage = (\<lambda>p. Inr (Some p)), Render = (\<lambda>pg. Inr pg),
         Create = (\<lambda>path. None), Encode = (\<lambda>img. None)\<rparr>
        True ''out'' ''out/report'' 1 [1] (Map.empty :: int files))
     ''out/report/page_1.jpg'' = Some (Encoded 1)"
  by (simp add: render_pages_def render_one_def RenderPdfPage_def Sprintf_d_def digits_of.simps
      Let_def zero_renderedPage_def)

end
